theory Spec2Isabelle
  imports
    Main
    "HOL-Library.Char_ord"
    "HOL-Library.List_Lexorder"
    "HOL-Library.Product_Lexorder"
    "HOL-Library.Multiset"
    "HOL-Library.Word"
begin

section \<open>The Forge data plane: task graph, Query Index and its queries\<close>

text \<open>
  The development follows \<^verbatim>\<open>docs/data-plane-design.md\<close>: the TypeScript types of the
  task schema, the SQLite schema of the Query Index, the SQL of the core queries and the
  two TypeScript functions \<^verbatim>\<open>generateTaskId\<close> and \<^verbatim>\<open>claimTask\<close>.

  Timestamps are ISO-8601 strings, as in the source (\<^verbatim>\<open>created_at: string\<close>, a
  \<^verbatim>\<open>TEXT\<close> column). They are compared as SQLite compares \<^verbatim>\<open>TEXT\<close>: bytewise,
  that is by the lexicographic order on \<^typ>\<open>string\<close>.
\<close>

subsection \<open>Task schema\<close>

datatype TaskStatus = Open | In_progress | Closed

datatype TaskType = Task | Bug | Feature | Epic | Message

datatype DepType = Blocks | Related | Discovered_from

text \<open>\<^verbatim>\<open>interface TaskDependency { id: string; type: DepType }\<close>\<close>

record TaskDependency =
  dep_id :: string
  dep_kind :: DepType

text \<open>
  One row of the \<^verbatim>\<open>tasks\<close> table. The \<^verbatim>\<open>CHECK\<close> constraints on \<^verbatim>\<open>status\<close> and
  \<^verbatim>\<open>type\<close> are the datatypes above; a nullable column is an \<^typ>\<open>'a option\<close>.
  \<^verbatim>\<open>labels\<close> and \<^verbatim>\<open>metadata\<close> are JSON texts in the table; the labels are kept as
  the list they encode, the metadata as the text.
\<close>

record task_row =
  task_id :: string
  title :: string
  description :: string
  status :: TaskStatus
  close_reason :: "string option"
  priority :: int
  task_type :: TaskType
  assignee :: "string option"
  parent_id :: "string option"
  labels :: "string list"
  github_issue :: "int option"
  created_at :: string
  created_by :: string
  updated_at :: string
  closed_at :: "string option"
  metadata :: string

text \<open>One row of the \<^verbatim>\<open>dependencies\<close> table: \<^verbatim>\<open>from_id\<close> depends on \<^verbatim>\<open>to_id\<close>.\<close>

record dep_row =
  from_id :: string
  to_id :: string
  dep_type :: DepType

text \<open>The Query Index: the two relations, each in row order.\<close>

record query_index =
  tasks :: "task_row list"
  dependencies :: "dep_row list"

definition empty_index :: query_index where
  "empty_index = \<lparr>tasks = [], dependencies = []\<rparr>"

definition task_ids :: "query_index \<Rightarrow> string list" where
  "task_ids db = map task_id (tasks db)"

text \<open>\<^verbatim>\<open>id TEXT PRIMARY KEY NOT NULL\<close>: no two rows of \<^verbatim>\<open>tasks\<close> share an id.\<close>

definition primary_key_ok :: "query_index \<Rightarrow> bool" where
  "primary_key_ok db \<longleftrightarrow> distinct (task_ids db)"

text \<open>\<^verbatim>\<open>SELECT * FROM tasks WHERE id = ?\<close>\<close>

definition select_task :: "query_index \<Rightarrow> string \<Rightarrow> task_row option" where
  "select_task db i = find (\<lambda>t. task_id t = i) (tasks db)"

subsection \<open>Claiming a task\<close>

text \<open>
  \<^verbatim>\<open>
  export function claimTask(db, taskId, agentId): boolean {
    const now = new Date().toISOString();
    const result = db.prepare(
        `UPDATE tasks
         SET status = 'in_progress', assignee = ?, updated_at = ?
         WHERE id = ? AND status = 'open' AND assignee IS NULL`,
      ).run(agentId, now, taskId);
    return result.changes === 1;
  }
  \<close>
  The clock reading \<^verbatim>\<open>now\<close> is a parameter of the model. The function returns the
  updated Index together with the boolean.
\<close>

definition claim_where :: "string \<Rightarrow> task_row \<Rightarrow> bool" where
  "claim_where taskId t \<longleftrightarrow> task_id t = taskId \<and> status t = Open \<and> assignee t = None"

definition claim_set :: "string \<Rightarrow> string \<Rightarrow> task_row \<Rightarrow> task_row" where
  "claim_set agentId now t = t\<lparr>status := In_progress, assignee := Some agentId, updated_at := now\<rparr>"

definition claimTask :: "string \<Rightarrow> query_index \<Rightarrow> string \<Rightarrow> string \<Rightarrow> query_index \<times> bool" where
  "claimTask now db taskId agentId =
     (let changes = length (filter (claim_where taskId) (tasks db));
          db' = db\<lparr>tasks := map (\<lambda>t. if claim_where taskId t then claim_set agentId now t else t)
                                 (tasks db)\<rparr>
      in (db', changes = 1))"

text \<open>
  Several \<^verbatim>\<open>claimTask\<close> calls for one task, issued by separate processes. Each call is
  the single \<^verbatim>\<open>UPDATE\<close> statement above, which SQLite runs under its writer lock, so a
  concurrent execution is a sequence of the calls in the order in which they take the
  lock. A call is the pair of the agent and its clock reading; the result lists the
  booleans in that order.
\<close>

fun claim_all :: "query_index \<Rightarrow> string \<Rightarrow> (string \<times> string) list \<Rightarrow> query_index \<times> bool list" where
  "claim_all db taskId [] = (db, [])"
| "claim_all db taskId ((agentId, now) # cs) =
     (let (db1, r) = claimTask now db taskId agentId;
          (db2, rs) = claim_all db1 taskId cs
      in (db2, r # rs))"

subsection \<open>The ready set\<close>

text \<open>
  \<^verbatim>\<open>
  SELECT t.* FROM tasks t
  WHERE t.status = 'open' AND t.assignee IS NULL
    AND t.id NOT IN (
      SELECT d.from_id FROM dependencies d
      JOIN tasks blocker ON blocker.id = d.to_id
      WHERE d.dep_type = 'blocks' AND blocker.status != 'closed')
  ORDER BY t.priority ASC, t.created_at ASC;
  \<close>
  The subquery is an inner join: an edge contributes only through rows of \<^verbatim>\<open>tasks\<close>
  whose id is its \<^verbatim>\<open>to_id\<close>. The order is the lexicographic one on the pair of the
  two columns; rows with equal keys stay in table order.
\<close>

definition blocked_ids :: "query_index \<Rightarrow> string list" where
  "blocked_ids db =
     [from_id d. d \<leftarrow> dependencies db, blocker \<leftarrow> tasks db,
                 task_id blocker = to_id d, dep_type d = Blocks \<and> status blocker \<noteq> Closed]"

definition ready_where :: "query_index \<Rightarrow> task_row \<Rightarrow> bool" where
  "ready_where db t \<longleftrightarrow>
     status t = Open \<and> assignee t = None \<and> task_id t \<notin> set (blocked_ids db)"

definition ready :: "query_index \<Rightarrow> task_row list" where
  "ready db = sort_key (\<lambda>t. (priority t, created_at t)) (filter (ready_where db) (tasks db))"

subsection \<open>The dependency tree\<close>

text \<open>
  \<^verbatim>\<open>
  WITH RECURSIVE dep_tree(task_id, depth, path) AS (
    SELECT ?, 0, ?
    UNION ALL
    SELECT d.to_id, dt.depth + 1, dt.path || ' -> ' || d.to_id
    FROM dep_tree dt JOIN dependencies d ON d.from_id = dt.task_id
    WHERE d.dep_type = 'blocks' AND dt.depth < 10  -- cycle guard
  )
  SELECT dt.depth, dt.path, t.id, t.title, t.status, t.priority
  FROM dep_tree dt JOIN tasks t ON t.id = dt.task_id
  ORDER BY dt.depth ASC, t.priority ASC;
  \<close>
  (the separator of the source is a space, the arrow U+2192 and a space; the arrow is
  three bytes in UTF-8).

  A recursive common table expression with \<^verbatim>\<open>UNION ALL\<close> is evaluated by iteration:
  the rows produced last are the input of the recursive \<^verbatim>\<open>SELECT\<close>, its output is
  added to the result and becomes the next input, until no row is produced. SQLite's
  first-in first-out queue yields the rows in the same order. \<open>cte_step\<close> is the
  recursive \<^verbatim>\<open>SELECT\<close> on one row of \<^verbatim>\<open>dep_tree\<close>, \<open>cte_rows\<close> the iteration.
\<close>

record cte_row =
  cte_task_id :: string
  depth :: int
  path :: string

definition arrow :: string where
  "arrow = [CHR '' '', CHR 0xE2, CHR 0x86, CHR 0x92, CHR '' '']"

definition cte_step :: "query_index \<Rightarrow> cte_row \<Rightarrow> cte_row list" where
  "cte_step db dt =
     [\<lparr>cte_task_id = to_id d, depth = depth dt + 1, path = path dt @ arrow @ to_id d\<rparr>.
        d \<leftarrow> dependencies db, from_id d = cte_task_id dt,
        dep_type d = Blocks \<and> depth dt < 10]"

definition cte_measure :: "cte_row list \<Rightarrow> nat" where
  "cte_measure rows = (if rows = [] then 0 else Suc (nat (10 - Min (depth ` set rows))))"

function cte_rows :: "query_index \<Rightarrow> cte_row list \<Rightarrow> cte_row list" where
  "cte_rows db rows =
     (if rows = [] then [] else rows @ cte_rows db (concat (map (cte_step db) rows)))"
  by pat_completeness auto
termination
proof (relation "measure (\<lambda>(db, rows). cte_measure rows)")
  show "wf (measure (\<lambda>(db, rows). cte_measure rows))"
    by simp
next
  fix db :: query_index and rows :: "cte_row list"
  assume nonempty: "rows \<noteq> []"
  let ?next = "concat (map (cte_step db) rows)"
  have "cte_measure ?next < cte_measure rows"
  proof (cases "?next = []")
    case True
    with nonempty show ?thesis by (simp add: cte_measure_def)
  next
    case False
    have "Min (depth ` set ?next) \<in> depth ` set ?next"
      using False by (intro Min_in) simp_all
    then obtain r' where r': "r' \<in> set ?next" "Min (depth ` set ?next) = depth r'"
      by blast
    from r'(1) obtain r where r: "r \<in> set rows" "r' \<in> set (cte_step db r)"
      by auto
    have "Min (depth ` set rows) \<le> depth r"
      using r(1) by (intro Min_le) simp_all
    moreover have "depth r' = depth r + 1 \<and> depth r < 10"
      using r(2) by (auto simp: cte_step_def)
    ultimately have "nat (10 - Min (depth ` set ?next)) < nat (10 - Min (depth ` set rows))"
      unfolding r'(2) by linarith
    moreover have "cte_measure ?next = Suc (nat (10 - Min (depth ` set ?next)))"
      unfolding cte_measure_def using False by (rule if_not_P)
    moreover have "cte_measure rows = Suc (nat (10 - Min (depth ` set rows)))"
      unfolding cte_measure_def using nonempty by (rule if_not_P)
    ultimately show ?thesis by linarith
  qed
  then show "((db, ?next), (db, rows)) \<in> measure (\<lambda>(db, rows). cte_measure rows)"
    by simp
qed

declare cte_rows.simps [simp del]

record tree_row =
  tr_depth :: int
  tr_path :: string
  tr_id :: string
  tr_title :: string
  tr_status :: TaskStatus
  tr_priority :: int

text \<open>The two parameters of the anchor are the root id and the text its path starts with.\<close>

definition dep_tree :: "query_index \<Rightarrow> string \<Rightarrow> string \<Rightarrow> tree_row list" where
  "dep_tree db root root_path =
     sort_key (\<lambda>r. (tr_depth r, tr_priority r))
       [\<lparr>tr_depth = depth dt, tr_path = path dt, tr_id = task_id t, tr_title = title t,
          tr_status = status t, tr_priority = priority t\<rparr>.
          dt \<leftarrow> cte_rows db [\<lparr>cte_task_id = root, depth = 0, path = root_path\<rparr>],
          t \<leftarrow> tasks db, task_id t = cte_task_id dt]"

subsection \<open>Hash-based task ids\<close>

text \<open>
  \<^verbatim>\<open>
  export function generateTaskId(prefix: string): string {
    const bytes = randomBytes(4);
    const num = bytes.readUInt32BE(0);
    const encoded = num.toString(36).padStart(4, '0').slice(-4);
    return `${prefix}-${encoded}`;
  }
  \<close>
  The unsigned 32-bit number read from the four random bytes is a parameter of the model.
\<close>

definition base36_digits :: string where
  "base36_digits = ''0123456789abcdefghijklmnopqrstuvwxyz''"

function toString36 :: "nat \<Rightarrow> string" where
  "toString36 n =
     (if n < 36 then [base36_digits ! n]
      else toString36 (n div 36) @ [base36_digits ! (n mod 36)])"
  by pat_completeness auto
termination
  by (relation "measure (\<lambda>n. n)") auto

declare toString36.simps [simp del]

definition padStart :: "nat \<Rightarrow> char \<Rightarrow> string \<Rightarrow> string" where
  "padStart n c s = replicate (n - length s) c @ s"

text \<open>\<^verbatim>\<open>s.slice(-n)\<close>: the last \<open>n\<close> characters, the whole string when it is shorter.\<close>

definition slice_last :: "nat \<Rightarrow> string \<Rightarrow> string" where
  "slice_last n s = drop (length s - n) s"

definition generateTaskId :: "string \<Rightarrow> 32 word \<Rightarrow> string" where
  "generateTaskId prefix num =
     prefix @ ''-'' @ slice_last 4 (padStart 4 (CHR ''0'') (toString36 (unat num)))"

subsection \<open>Inserting a dependency edge\<close>




subsection \<open>Record Store, export and import\<close>

text \<open>
  A snapshot is a \<^verbatim>\<open>Task\<close> of the TypeScript schema: the columns of the row and the
  outbound \<^verbatim>\<open>dependencies\<close> list. A line of \<^verbatim>\<open>tasks.jsonl\<close> is given by what
  parsing it yields: a snapshot, or nothing when the line is not valid JSON.
\<close>

record snapshot =
  snap_task :: task_row
  snap_dependencies :: "TaskDependency list"

datatype line = Malformed string | Snapshot snapshot

text \<open>
  Modelled from the spec: the Sync Engine (\<^verbatim>\<open>forge import\<close>, \<^verbatim>\<open>forge export\<close>) has no
  code in the repository. Import "reads the Record Store sequentially; for each line,
  parses it as a task snapshot and upserts into the Index -- last writer wins at the
  whole-record granularity, keyed by \<^verbatim>\<open>updated_at\<close>"; "malformed lines are skipped";
  "after upserting tasks, dependency edges implied by each task's dependency list are
  inserted into the \<^verbatim>\<open>dependencies\<close> relation idempotently". A snapshot replaces the
  row of its id when its \<^verbatim>\<open>updated_at\<close> is later than the row's; the row keeps its
  place in the table.
\<close>

fun upsert :: "task_row \<Rightarrow> task_row list \<Rightarrow> task_row list" where
  "upsert r [] = [r]"
| "upsert r (t # ts) =
     (if task_id t = task_id r
      then (if updated_at t < updated_at r then r else t) # ts
      else t # upsert r ts)"

fun parsed :: "line list \<Rightarrow> snapshot list" where
  "parsed [] = []"
| "parsed (Malformed _ # ls) = parsed ls"
| "parsed (Snapshot s # ls) = s # parsed ls"

definition edges_of :: "snapshot \<Rightarrow> dep_row list" where
  "edges_of s =
     map (\<lambda>d. \<lparr>from_id = task_id (snap_task s), to_id = dep_id d, dep_type = dep_kind d\<rparr>)
       (snap_dependencies s)"

definition insert_edge :: "dep_row list \<Rightarrow> dep_row \<Rightarrow> dep_row list" where
  "insert_edge ds e = (if e \<in> set ds then ds else ds @ [e])"

definition forge_import :: "line list \<Rightarrow> query_index \<Rightarrow> query_index" where
  "forge_import store db =
     \<lparr>tasks = foldl (\<lambda>ts s. upsert (snap_task s) ts) (tasks db) (parsed store),
      dependencies = foldl insert_edge (dependencies db) (concat (map edges_of (parsed store)))\<rparr>"

text \<open>
  Modelled from the spec: export "writes the Index's current task set as one
  deduplicated snapshot line per task"; every field of the task is exported verbatim, and
  the dependency list of a task is its outbound rows of \<^verbatim>\<open>dependencies\<close>.
\<close>

definition dependencies_of :: "query_index \<Rightarrow> string \<Rightarrow> TaskDependency list" where
  "dependencies_of db i =
     map (\<lambda>d. \<lparr>dep_id = to_id d, dep_kind = dep_type d\<rparr>)
       (filter (\<lambda>d. from_id d = i) (dependencies db))"

definition forge_export :: "query_index \<Rightarrow> line list" where
  "forge_export db =
     map (\<lambda>t. Snapshot \<lparr>snap_task = t, snap_dependencies = dependencies_of db (task_id t)\<rparr>)
       (tasks db)"

subsection \<open>Sample data\<close>

definition example_task :: "string \<Rightarrow> TaskStatus \<Rightarrow> string option \<Rightarrow> int \<Rightarrow> string \<Rightarrow> task_row" where
  "example_task i st a p ts =
     \<lparr>task_id = i, title = ''Implement hash-based ID generation'', description = [],
      status = st, close_reason = None, priority = p, task_type = Task, assignee = a,
      parent_id = None, labels = [], github_issue = None, created_at = ts,
      created_by = ''orchestrator'', updated_at = ts, closed_at = None, metadata = ''{}''\<rparr>"


definition cyclic_index :: query_index where
  "cyclic_index =
     \<lparr>tasks = [example_task ''fg-a3f8'' Open None 1 ''2026-02-10T09:00:00.000Z'',
               example_task ''fg-b2c1'' Open None 1 ''2026-02-10T09:05:00.000Z''],
      dependencies = [\<lparr>from_id = ''fg-a3f8'', to_id = ''fg-b2c1'', dep_type = Blocks\<rparr>,
                      \<lparr>from_id = ''fg-b2c1'', to_id = ''fg-a3f8'', dep_type = Blocks\<rparr>]\<rparr>"

definition sample_index :: query_index where
  "sample_index =
     \<lparr>tasks = [example_task ''fg-a3f8'' Closed None 1 ''2026-02-10T09:00:00.000Z'',
               example_task ''fg-c9d1'' Open None 2 ''2026-02-10T09:10:00.000Z'',
               example_task ''fg-b2c1'' Open None 2 ''2026-02-10T09:05:00.000Z'',
               example_task ''fg-e5a2'' Open None 0 ''2026-02-10T09:20:00.000Z'',
               example_task ''fg-k7m2'' Open None 0 ''2026-02-10T09:30:00.000Z'',
               example_task ''fg-0019'' In_progress (Some ''worker-2'') 0 ''2026-02-10T09:00:00.000Z''],
      dependencies = [\<lparr>from_id = ''fg-c9d1'', to_id = ''fg-a3f8'', dep_type = Blocks\<rparr>,
                      \<lparr>from_id = ''fg-k7m2'', to_id = ''fg-b2c1'', dep_type = Blocks\<rparr>,
                      \<lparr>from_id = ''fg-e5a2'', to_id = ''fg-0019'', dep_type = Related\<rparr>]\<rparr>"




section \<open>Properties\<close>

subsection \<open>Claiming\<close>

lemma claim_where_id: "claim_where i t \<Longrightarrow> task_id t = i"
  by (simp add: claim_where_def)

lemma filter_claim_where_distinct:
  "distinct (map task_id ts) \<Longrightarrow> length (filter (claim_where i) ts) \<le> 1"
proof (induction ts)
  case Nil
  then show ?case by simp
next
  case (Cons a ts)
  have "filter (claim_where i) ts = []" if "task_id a = i"
  proof -
    have "\<forall>x\<in>set ts. task_id x \<noteq> i"
    proof
      fix x assume "x \<in> set ts"
      then have "task_id x \<in> set (map task_id ts)" by simp
      moreover have "task_id a \<notin> set (map task_id ts)" using Cons.prems by simp
      ultimately show "task_id x \<noteq> i" using that by metis
    qed
    then show ?thesis by (simp add: filter_empty_conv claim_where_def)
  qed
  with Cons show ?case by (auto dest: claim_where_id)
qed

lemma changes_one_iff:
  "distinct (map task_id ts) \<Longrightarrow>
   length (filter (claim_where i) ts) = 1 \<longleftrightarrow> (\<exists>t\<in>set ts. claim_where i t)"
proof -
  assume d: "distinct (map task_id ts)"
  have "length (filter (claim_where i) ts) \<le> 1" using d by (rule filter_claim_where_distinct)
  moreover have "length (filter (claim_where i) ts) = 0 \<longleftrightarrow> \<not> (\<exists>t\<in>set ts. claim_where i t)"
    by (auto simp: filter_empty_conv)
  ultimately show ?thesis by linarith
qed

lemma find_id_iff:
  "distinct (map task_id ts) \<Longrightarrow> find (\<lambda>t. task_id t = i) ts = Some t \<longleftrightarrow> t \<in> set ts \<and> task_id t = i"
  by (induction ts) (auto)

lemma map_no_match: "\<forall>t\<in>set ts. \<not> P t \<Longrightarrow> map (\<lambda>t. if P t then f t else t) ts = ts"
  by (induction ts) auto

lemma find_map_claim:
  "find (\<lambda>t. task_id t = i) (map (\<lambda>t. if claim_where j t then claim_set a n t else t) ts)
   = map_option (\<lambda>t. if claim_where j t then claim_set a n t else t) (find (\<lambda>t. task_id t = i) ts)"
  by (induction ts) (auto simp: claim_set_def)

lemma claim_result_iff:
  assumes "primary_key_ok db"
  shows "snd (claimTask now db taskId agentId) \<longleftrightarrow>
           (\<exists>t. select_task db taskId = Some t \<and> status t = Open \<and> assignee t = None)"
proof -
  let ?ts = "tasks db"
  have d: "distinct (map task_id ?ts)" using assms by (simp add: primary_key_ok_def task_ids_def)
  have r: "snd (claimTask now db taskId agentId) \<longleftrightarrow> (\<exists>t\<in>set ?ts. claim_where taskId t)"
    using changes_one_iff[OF d] by (simp add: claimTask_def Let_def)
  show ?thesis
    unfolding r select_task_def using find_id_iff[OF d] by (auto simp: claim_where_def)
qed

lemma claim_select:
  "select_task (fst (claimTask now db taskId agentId)) i =
     map_option (\<lambda>t. if claim_where taskId t then claim_set agentId now t else t) (select_task db i)"
  by (simp add: claimTask_def Let_def select_task_def find_map_claim)

lemma claim_success_row:
  assumes "select_task db taskId = Some t" "status t = Open" "assignee t = None"
  shows "select_task (fst (claimTask now db taskId agentId)) taskId =
           Some (t\<lparr>status := In_progress, assignee := Some agentId, updated_at := now\<rparr>)"
proof -
  have "task_id t = taskId"
    using assms(1) unfolding select_task_def by (auto simp: find_Some_iff)
  with assms have "claim_where taskId t" by (simp add: claim_where_def)
  then show ?thesis using assms(1) by (simp add: claim_select claim_set_def)
qed

lemma claim_failure_unchanged:
  assumes "primary_key_ok db" "\<not> snd (claimTask now db taskId agentId)"
  shows "fst (claimTask now db taskId agentId) = db"
proof -
  have d: "distinct (map task_id (tasks db))"
    using assms(1) by (simp add: primary_key_ok_def task_ids_def)
  have "\<forall>t\<in>set (tasks db). \<not> claim_where taskId t"
    using assms(2) changes_one_iff[OF d] by (simp add: claimTask_def Let_def)
  then show ?thesis by (simp add: claimTask_def Let_def map_no_match)
qed

lemma claim_keeps_primary_key:
  "primary_key_ok db \<Longrightarrow> primary_key_ok (fst (claimTask now db taskId agentId))"
proof -
  have "task_id \<circ> (\<lambda>t. if claim_where taskId t then claim_set agentId now t else t) = task_id"
    by (rule ext) (simp add: claim_set_def)
  then show "primary_key_ok db \<Longrightarrow> primary_key_ok (fst (claimTask now db taskId agentId))"
    by (simp add: primary_key_ok_def task_ids_def claimTask_def Let_def)
qed



text \<open>
  Claim C10. For an id with no row in \<^verbatim>\<open>tasks\<close>, \<open>claimTask\<close> returns false, the
  same boolean as for a lost race and no error value, and the Index is unchanged.
\<close>

theorem claimTask_missing_id:
  assumes "select_task db taskId = None"
  shows "claimTask now db taskId agentId = (db, False)"
proof -
  have "\<forall>t\<in>set (tasks db). \<not> claim_where taskId t"
    using assms by (auto simp: select_task_def find_None_iff dest: claim_where_id)
  then show ?thesis
    by (simp add: claimTask_def Let_def map_no_match)
qed

theorem claimTask_missing_id_witness:
  "select_task \<lparr>tasks = [example_task ''fg-b2c1'' Open None 1 ''2026-02-10T09:05:00.000Z''],
                dependencies = []\<rparr> ''fg-zzzz'' = None
   \<and> claimTask ''2026-02-11T08:15:00.000Z''
        \<lparr>tasks = [example_task ''fg-b2c1'' Open None 1 ''2026-02-10T09:05:00.000Z''],
         dependencies = []\<rparr> ''fg-zzzz'' ''worker-1''
      = (\<lparr>tasks = [example_task ''fg-b2c1'' Open None 1 ''2026-02-10T09:05:00.000Z''],
          dependencies = []\<rparr>, False)"
  using claimTask_missing_id
    [of "\<lparr>tasks = [example_task ''fg-b2c1'' Open None 1 ''2026-02-10T09:05:00.000Z''],
          dependencies = []\<rparr>" "''fg-zzzz''" "''2026-02-11T08:15:00.000Z''" "''worker-1''"]
  by (simp add: select_task_def example_task_def)

lemma claim_all_first_wins:
  assumes "primary_key_ok db" "select_task db taskId = Some t" "status t = Open" "assignee t = None"
  shows "snd (claim_all db taskId ((a, n) # cs)) = True # replicate (length cs) False"
proof -
  have later: "snd (claim_all d taskId cs) = replicate (length cs) False"
    if "primary_key_ok d" "select_task d taskId = Some u" "status u \<noteq> Open" for d u
    using that
  proof (induction cs arbitrary: d)
    case Nil
    then show ?case by simp
  next
    case (Cons c cs)
    obtain a' n' where c: "c = (a', n')" by (cases c)
    have f: "\<not> snd (claimTask n' d taskId a')"
      using Cons.prems claim_result_iff[of d n' taskId a'] by auto
    then have same: "fst (claimTask n' d taskId a') = d"
      using Cons.prems(1) by (rule claim_failure_unchanged[rotated])
    have "snd (claim_all d taskId cs) = replicate (length cs) False"
      using Cons.IH[OF Cons.prems] .
    with f same show ?case by (simp add: c split_beta Let_def)
  qed
  let ?d = "fst (claimTask n db taskId a)"
  have s: "snd (claimTask n db taskId a)"
    using assms claim_result_iff[of db n taskId a] by auto
  have "select_task ?d taskId = Some (t\<lparr>status := In_progress, assignee := Some a, updated_at := n\<rparr>)"
    using assms by (simp add: claim_success_row)
  then have "snd (claim_all ?d taskId cs) = replicate (length cs) False"
    using later[OF claim_keeps_primary_key[OF assms(1)]] by simp
  with s show ?thesis by (simp add: split_beta Let_def)
qed

text \<open>
  Claim C3. Two \<open>claimTask\<close> calls from two agents race for one open, unassigned task.
  Whichever call takes the writer lock first, that call returns true and the other one
  returns false: exactly one of the two succeeds.
\<close>

theorem concurrent_claims_exactly_one:
  assumes "primary_key_ok db" "select_task db taskId = Some t" "status t = Open" "assignee t = None"
  shows "snd (claim_all db taskId [(agent1, now1), (agent2, now2)]) = [True, False]
       \<and> snd (claim_all db taskId [(agent2, now2), (agent1, now1)]) = [True, False]"
  using claim_all_first_wins[OF assms, of agent1 now1 "[(agent2, now2)]"]
        claim_all_first_wins[OF assms, of agent2 now2 "[(agent1, now1)]"]
  by simp

theorem concurrent_claims_exactly_one_witness:
  "primary_key_ok \<lparr>tasks = [example_task ''fg-b2c1'' Open None 1 ''2026-02-10T09:05:00.000Z''],
                   dependencies = []\<rparr>
   \<and> select_task \<lparr>tasks = [example_task ''fg-b2c1'' Open None 1 ''2026-02-10T09:05:00.000Z''],
                  dependencies = []\<rparr> ''fg-b2c1''
       = Some (example_task ''fg-b2c1'' Open None 1 ''2026-02-10T09:05:00.000Z'')
   \<and> snd (claim_all \<lparr>tasks = [example_task ''fg-b2c1'' Open None 1 ''2026-02-10T09:05:00.000Z''],
                     dependencies = []\<rparr> ''fg-b2c1''
             [(''worker-1'', ''2026-02-11T08:15:00.000Z''), (''worker-2'', ''2026-02-11T08:15:00.001Z'')])
       = [True, False]
   \<and> snd (claim_all \<lparr>tasks = [example_task ''fg-b2c1'' Open None 1 ''2026-02-10T09:05:00.000Z''],
                     dependencies = []\<rparr> ''fg-b2c1''
             [(''worker-2'', ''2026-02-11T08:15:00.001Z''), (''worker-1'', ''2026-02-11T08:15:00.000Z'')])
       = [True, False]"
  using concurrent_claims_exactly_one
    [of "\<lparr>tasks = [example_task ''fg-b2c1'' Open None 1 ''2026-02-10T09:05:00.000Z''],
          dependencies = []\<rparr>" "''fg-b2c1''"
        "example_task ''fg-b2c1'' Open None 1 ''2026-02-10T09:05:00.000Z''"
        "''worker-1''" "''2026-02-11T08:15:00.000Z''" "''worker-2''" "''2026-02-11T08:15:00.001Z''"]
  by (simp add: primary_key_ok_def task_ids_def select_task_def example_task_def)

subsection \<open>The ready set\<close>

lemma blocked_ids_iff:
  "i \<in> set (blocked_ids db) \<longleftrightarrow>
     (\<exists>d\<in>set (dependencies db). from_id d = i \<and> dep_type d = Blocks \<and>
        (\<exists>b\<in>set (tasks db). task_id b = to_id d \<and> status b \<noteq> Closed))"
  by (auto simp: blocked_ids_def)

lemma ready_order:
  "sorted_wrt (\<lambda>a b. priority a < priority b \<or>
                       priority a = priority b \<and> created_at a \<le> created_at b) (ready db)"
proof -
  let ?key = "\<lambda>t::task_row. (priority t, created_at t)"
  have "sorted (map ?key (ready db))"
    unfolding ready_def by (rule sorted_sort_key)
  then have "sorted_wrt (\<lambda>a b. ?key a \<le> ?key b) (ready db)"
    by (simp add: sorted_map)
  then show ?thesis
    by (rule sorted_wrt_mono_rel[rotated]) (auto simp: less_eq_prod_def)
qed

text \<open>
  Claim C4. \<open>ready\<close> returns exactly the rows of \<^verbatim>\<open>tasks\<close>, each as often as the table
  holds it, whose status is \<open>open\<close>, whose assignee is unset and which have no outbound
  \<open>blocks\<close> edge pointing to a task whose status is not \<open>closed\<close>. The result is ordered
  by priority ascending, then by \<open>created_at\<close> ascending. The query is a function of the
  Index that yields rows only: there is no Index after it other than the one before it.
\<close>

theorem ready_exactly_open_unassigned_unblocked:
  "mset (ready db) =
     filter_mset (\<lambda>t. status t = Open \<and> assignee t = None \<and>
        \<not> (\<exists>d\<in>set (dependencies db). from_id d = task_id t \<and> dep_type d = Blocks \<and>
              (\<exists>b\<in>set (tasks db). task_id b = to_id d \<and> status b \<noteq> Closed)))
       (mset (tasks db))
   \<and> sorted_wrt (\<lambda>a b. priority a < priority b \<or>
                        priority a = priority b \<and> created_at a \<le> created_at b) (ready db)"
proof -
  have "ready_where db = (\<lambda>t. status t = Open \<and> assignee t = None \<and>
        \<not> (\<exists>d\<in>set (dependencies db). from_id d = task_id t \<and> dep_type d = Blocks \<and>
              (\<exists>b\<in>set (tasks db). task_id b = to_id d \<and> status b \<noteq> Closed)))"
    by (rule ext) (simp add: ready_where_def blocked_ids_iff)
  then have "mset (ready db) =
     filter_mset (\<lambda>t. status t = Open \<and> assignee t = None \<and>
        \<not> (\<exists>d\<in>set (dependencies db). from_id d = task_id t \<and> dep_type d = Blocks \<and>
              (\<exists>b\<in>set (tasks db). task_id b = to_id d \<and> status b \<noteq> Closed)))
       (mset (tasks db))"
    by (simp add: ready_def)
  moreover note ready_order[of db]
  ultimately show ?thesis by (rule conjI)
qed

theorem ready_exactly_open_unassigned_unblocked_witness:
  "map task_id (ready sample_index) = [''fg-e5a2'', ''fg-b2c1'', ''fg-c9d1'']
   \<and> mset (ready sample_index) =
     filter_mset (\<lambda>t. status t = Open \<and> assignee t = None \<and>
        \<not> (\<exists>d\<in>set (dependencies sample_index). from_id d = task_id t \<and> dep_type d = Blocks \<and>
              (\<exists>b\<in>set (tasks sample_index). task_id b = to_id d \<and> status b \<noteq> Closed)))
       (mset (tasks sample_index))"
proof -
  have "map task_id (ready sample_index) = [''fg-e5a2'', ''fg-b2c1'', ''fg-c9d1'']"
    by code_simp
  moreover note ready_exactly_open_unassigned_unblocked[of sample_index, THEN conjunct1]
  ultimately show ?thesis by (rule conjI)
qed




subsection \<open>The dependency tree\<close>

lemma cte_rows_depth:
  "(\<forall>r\<in>set rows. 0 \<le> depth r \<and> depth r \<le> 10) \<Longrightarrow>
   (\<forall>r\<in>set (cte_rows db rows). 0 \<le> depth r \<and> depth r \<le> 10)"
proof (induction db rows rule: cte_rows.induct)
  case (1 db rows)
  show ?case
  proof (cases "rows = []")
    case True
    then show ?thesis by (subst cte_rows.simps) simp
  next
    case False
    have "\<forall>r\<in>set (concat (map (cte_step db) rows)). 0 \<le> depth r \<and> depth r \<le> 10"
      using "1.prems" by (fastforce simp: cte_step_def)
    then have "\<forall>r\<in>set (cte_rows db (concat (map (cte_step db) rows))). 0 \<le> depth r \<and> depth r \<le> 10"
      using "1.IH"[OF False] by blast
    moreover have "cte_rows db rows = rows @ cte_rows db (concat (map (cte_step db) rows))"
      using False by (subst cte_rows.simps) simp
    ultimately show ?thesis using "1.prems" by auto
  qed
qed

text \<open>
  Claim C9. For every Index, cyclic edge sets included, and every root, the traversal
  returns: \<open>cte_rows\<close> is a total function, its termination proved from the depth
  guard alone, and \<open>dep_tree\<close> has no error result. Every row the recursion visits, and
  so every row of the list \<open>dep_tree\<close> returns, has a depth between 0 and the bound 10.
\<close>

theorem dep_tree_depth_bounded:
  "(\<forall>r\<in>set (cte_rows db [\<lparr>cte_task_id = root, depth = 0, path = root_path\<rparr>]).
      0 \<le> depth r \<and> depth r \<le> 10)
   \<and> (\<forall>r\<in>set (dep_tree db root root_path). 0 \<le> tr_depth r \<and> tr_depth r \<le> 10)"
proof -
  have visited: "\<forall>r\<in>set (cte_rows db [\<lparr>cte_task_id = root, depth = 0, path = root_path\<rparr>]).
          0 \<le> depth r \<and> depth r \<le> 10"
    by (rule cte_rows_depth) simp
  then have "\<forall>r\<in>set (dep_tree db root root_path). 0 \<le> tr_depth r \<and> tr_depth r \<le> 10"
    by (auto simp: dep_tree_def)
  with visited show ?thesis by (rule conjI)
qed

theorem dep_tree_depth_bounded_witness:
  "map (\<lambda>r. (tr_depth r, tr_id r)) (dep_tree cyclic_index ''fg-a3f8'' ''fg-a3f8'') =
     [(0, ''fg-a3f8''), (1, ''fg-b2c1''), (2, ''fg-a3f8''), (3, ''fg-b2c1''),
      (4, ''fg-a3f8''), (5, ''fg-b2c1''), (6, ''fg-a3f8''), (7, ''fg-b2c1''),
      (8, ''fg-a3f8''), (9, ''fg-b2c1''), (10, ''fg-a3f8'')]
   \<and> 0 \<le> tr_depth (last (dep_tree cyclic_index ''fg-a3f8'' ''fg-a3f8''))
   \<and> tr_depth (last (dep_tree cyclic_index ''fg-a3f8'' ''fg-a3f8'')) \<le> 10"
proof -
  have rows: "map (\<lambda>r. (tr_depth r, tr_id r)) (dep_tree cyclic_index ''fg-a3f8'' ''fg-a3f8'') =
     [(0, ''fg-a3f8''), (1, ''fg-b2c1''), (2, ''fg-a3f8''), (3, ''fg-b2c1''),
      (4, ''fg-a3f8''), (5, ''fg-b2c1''), (6, ''fg-a3f8''), (7, ''fg-b2c1''),
      (8, ''fg-a3f8''), (9, ''fg-b2c1''), (10, ''fg-a3f8'')]"
    by code_simp
  then have "dep_tree cyclic_index ''fg-a3f8'' ''fg-a3f8'' \<noteq> []"
    by auto
  then have "last (dep_tree cyclic_index ''fg-a3f8'' ''fg-a3f8'')
               \<in> set (dep_tree cyclic_index ''fg-a3f8'' ''fg-a3f8'')"
    by (rule last_in_set)
  then have "0 \<le> tr_depth (last (dep_tree cyclic_index ''fg-a3f8'' ''fg-a3f8''))
           \<and> tr_depth (last (dep_tree cyclic_index ''fg-a3f8'' ''fg-a3f8'')) \<le> 10"
    by (rule dep_tree_depth_bounded[of cyclic_index "''fg-a3f8''" "''fg-a3f8''", THEN conjunct2, THEN bspec])
  with rows show ?thesis by (rule conjI)
qed

subsection \<open>Task ids\<close>

lemma toString36_small: "n < 36 \<Longrightarrow> toString36 n = [base36_digits ! n]"
  by (subst toString36.simps) simp

lemma toString36_large:
  "\<not> n < 36 \<Longrightarrow> toString36 n = toString36 (n div 36) @ [base36_digits ! (n mod 36)]"
  by (subst toString36.simps) simp

lemma zero_digit: "base36_digits ! 0 = CHR ''0''"
  by (simp add: base36_digits_def)

lemma encode_step:
  "slice_last (Suc k) (padStart (Suc k) (CHR ''0'') (toString36 n)) =
     slice_last k (padStart k (CHR ''0'') (toString36 (n div 36))) @ [base36_digits ! (n mod 36)]"
proof (cases "n < 36")
  case True
  then have "toString36 (n div 36) = [CHR ''0'']"
    by (simp add: toString36_small zero_digit)
  moreover have "slice_last k (padStart k (CHR ''0'') [CHR ''0'']) = replicate k (CHR ''0'')"
    by (cases k) (simp_all add: slice_last_def padStart_def replicate_append_same)
  ultimately show ?thesis
    using True by (simp add: toString36_small slice_last_def padStart_def)
next
  case False
  then show ?thesis
    by (simp add: toString36_large slice_last_def padStart_def)
qed

lemma encode_digits:
  "slice_last 4 (padStart 4 (CHR ''0'') (toString36 n)) =
     map (\<lambda>k. base36_digits ! (n div 36 ^ k mod 36)) [3, 2, 1, 0]"
proof -
  have four: "(4::nat) = Suc (Suc (Suc (Suc 0)))" by simp
  have "slice_last 4 (padStart 4 (CHR ''0'') (toString36 n)) =
          [base36_digits ! (n div 36 div 36 div 36 mod 36), base36_digits ! (n div 36 div 36 mod 36),
           base36_digits ! (n div 36 mod 36), base36_digits ! (n mod 36)]"
    unfolding four encode_step by (simp add: slice_last_def)
  also have "\<dots> = map (\<lambda>k. base36_digits ! (n div 36 ^ k mod 36)) [3, 2, 1, 0]"
  proof -
    have "n div 36 div 36 = n div 1296" "n div 36 div 36 div 36 = n div 46656"
      by (simp_all add: div_mult2_eq[symmetric])
    then show ?thesis by simp
  qed
  finally show ?thesis .
qed

text \<open>
  Claim C7, as stated, fails: with the random number 45 the generator returns
  \<^verbatim>\<open>fg-0019\<close>, although \<open>sample_index\<close> already holds a task of that id. The function
  takes no Index, so it cannot notice the collision and does not retry.
\<close>

theorem generateTaskId_collision_counterexample:
  "generateTaskId ''fg'' 45 = ''fg-0019'' \<and> ''fg-0019'' \<in> set (task_ids sample_index)"
proof -
  have "generateTaskId ''fg'' 45 = ''fg-0019''"
    by code_simp
  then show ?thesis
    by (simp add: sample_index_def task_ids_def example_task_def)
qed

text \<open>
  Claim C7, amended. \<open>generateTaskId\<close> returns the prefix, a hyphen and the four
  low-order base-36 digits of the 32-bit random number. Its only inputs are the prefix and
  the random number: no Index, so an id already in the Index is returned as it is, and no
  counter.
\<close>

theorem generateTaskId_from_entropy_alone:
  "generateTaskId prefix num =
     prefix @ ''-'' @ map (\<lambda>k. base36_digits ! (unat num div 36 ^ k mod 36)) [3, 2, 1, 0]"
  unfolding generateTaskId_def encode_digits ..

subsection \<open>Dependency insertion\<close>




subsection \<open>Import and export\<close>








lemma upsert_fresh: "task_id r \<notin> set (map task_id ts) \<Longrightarrow> upsert r ts = ts @ [r]"
  by (induction ts) auto

lemma foldl_upsert_distinct:
  "distinct (map task_id (ts @ rs)) \<Longrightarrow> foldl (\<lambda>ts r. upsert r ts) ts rs = ts @ rs"
proof (induction rs arbitrary: ts)
  case Nil
  then show ?case by simp
next
  case (Cons r rs)
  have "upsert r ts = ts @ [r]"
    using Cons.prems by (intro upsert_fresh) auto
  moreover have "foldl (\<lambda>ts r. upsert r ts) (ts @ [r]) rs = (ts @ [r]) @ rs"
    using Cons.prems by (intro Cons.IH) auto
  ultimately show ?case by simp
qed

lemma parsed_Snapshot: "parsed (map (\<lambda>x. Snapshot (f x)) xs) = map f xs"
  by (induction xs) auto

lemma foldl_insert_edge_distinct:
  "distinct (ds @ es) \<Longrightarrow> foldl insert_edge ds es = ds @ es"
proof (induction es arbitrary: ds)
  case Nil
  then show ?case by simp
next
  case (Cons e es)
  have "insert_edge ds e = ds @ [e]"
    using Cons.prems by (simp add: insert_edge_def)
  moreover have "foldl insert_edge (ds @ [e]) es = (ds @ [e]) @ es"
    using Cons.prems by (intro Cons.IH) auto
  ultimately show ?case by simp
qed

lemma edges_of_exported:
  "edges_of \<lparr>snap_task = t, snap_dependencies = dependencies_of db (task_id t)\<rparr> =
     filter (\<lambda>d. from_id d = task_id t) (dependencies db)"
proof -
  have "map (\<lambda>d. \<lparr>from_id = i, to_id = to_id d, dep_type = dep_type d\<rparr>)
          (filter (\<lambda>d. from_id d = i) ds) = filter (\<lambda>d. from_id d = i) ds"
    for i and ds :: "dep_row list"
    by (induction ds) auto
  then show ?thesis
    by (simp add: edges_of_def dependencies_of_def comp_def)
qed

lemma grouped_edges_from:
  "d \<in> set (concat (map (\<lambda>t. filter (\<lambda>d. from_id d = task_id t) ds) ts)) \<Longrightarrow>
   from_id d \<in> set (map task_id ts)"
  by auto

lemma distinct_grouped_edges:
  "distinct (map task_id ts) \<Longrightarrow> distinct ds \<Longrightarrow>
   distinct (concat (map (\<lambda>t. filter (\<lambda>d. from_id d = task_id t) ds) ts))"
proof (induction ts)
  case Nil
  then show ?case by simp
next
  case (Cons t ts)
  have "from_id d \<noteq> task_id t"
    if "d \<in> set (concat (map (\<lambda>t. filter (\<lambda>d. from_id d = task_id t) ds) ts))" for d
    using grouped_edges_from[OF that] Cons.prems(1) by auto
  then have "set (filter (\<lambda>d. from_id d = task_id t) ds) \<inter>
             set (concat (map (\<lambda>t. filter (\<lambda>d. from_id d = task_id t) ds) ts)) = {}"
    by fastforce
  moreover have "distinct (concat (map (\<lambda>t. filter (\<lambda>d. from_id d = task_id t) ds) ts))"
    using Cons by simp
  ultimately show ?case
    using Cons.prems(2) by simp
qed

lemma filter_grouped_edges:
  "distinct (map task_id ts) \<Longrightarrow>
   filter (\<lambda>d. from_id d = i) (concat (map (\<lambda>t. filter (\<lambda>d. from_id d = task_id t) ds) ts)) =
     (if i \<in> set (map task_id ts) then filter (\<lambda>d. from_id d = i) ds else [])"
proof (induction ts)
  case Nil
  then show ?case by simp
next
  case (Cons t ts)
  have here: "filter (\<lambda>d. from_id d = i) (filter (\<lambda>d. from_id d = task_id t) ds) =
          (if task_id t = i then filter (\<lambda>d. from_id d = i) ds else [])"
    by (induction ds) auto
  have rest: "filter (\<lambda>d. from_id d = i) (concat (map (\<lambda>t. filter (\<lambda>d. from_id d = task_id t) ds) ts)) =
          (if i \<in> set (map task_id ts) then filter (\<lambda>d. from_id d = i) ds else [])"
    using Cons by simp
  have "task_id t = i \<Longrightarrow> i \<notin> set (map task_id ts)"
    using Cons.prems by auto
  then show ?case
    unfolding list.map concat.simps filter_append here rest by auto
qed

lemma import_export_tasks:
  assumes "primary_key_ok db"
  shows "tasks (forge_import (forge_export db) empty_index) = tasks db"
proof -
  have "foldl (\<lambda>ts r. upsert r ts) [] (tasks db) = [] @ tasks db"
    using assms by (intro foldl_upsert_distinct) (simp add: primary_key_ok_def task_ids_def)
  then show ?thesis
    by (simp add: forge_import_def forge_export_def parsed_Snapshot empty_index_def foldl_map)
qed

lemma import_export_dependencies:
  assumes "primary_key_ok db" "distinct (dependencies db)"
  shows "dependencies (forge_import (forge_export db) empty_index) =
           concat (map (\<lambda>t. filter (\<lambda>d. from_id d = task_id t) (dependencies db)) (tasks db))"
proof -
  let ?es = "concat (map (\<lambda>t. filter (\<lambda>d. from_id d = task_id t) (dependencies db)) (tasks db))"
  have "distinct ([] @ ?es)"
    using assms by (simp add: distinct_grouped_edges primary_key_ok_def task_ids_def)
  then have "foldl insert_edge [] ?es = [] @ ?es"
    by (rule foldl_insert_edge_distinct)
  then show ?thesis
    by (simp add: forge_import_def forge_export_def parsed_Snapshot empty_index_def
        comp_def edges_of_exported)
qed

text \<open>
  Claim C8. For an Index that respects the primary keys of its two relations, export
  followed by import into the empty Index gives an Index with the same rows of
  \<^verbatim>\<open>tasks\<close>, every column equal, and exporting it again gives the same snapshots: every
  task has the same dependency list as before.
\<close>

theorem export_import_round_trip:
  assumes "primary_key_ok db" "distinct (dependencies db)"
  shows "tasks (forge_import (forge_export db) empty_index) = tasks db
       \<and> forge_export (forge_import (forge_export db) empty_index) = forge_export db"
proof -
  let ?db' = "forge_import (forge_export db) empty_index"
  have t: "tasks ?db' = tasks db"
    using assms(1) by (rule import_export_tasks)
  have ids: "distinct (map task_id (tasks db))"
    using assms(1) by (simp add: primary_key_ok_def task_ids_def)
  have deps: "dependencies_of ?db' (task_id x) = dependencies_of db (task_id x)"
    if "x \<in> set (tasks db)" for x
    using that
    by (simp add: dependencies_of_def import_export_dependencies[OF assms]
        filter_grouped_edges[OF ids])
  have "forge_export ?db' =
          map (\<lambda>t. Snapshot \<lparr>snap_task = t, snap_dependencies = dependencies_of ?db' (task_id t)\<rparr>)
            (tasks ?db')"
    by (rule forge_export_def)
  also have "\<dots> =
          map (\<lambda>t. Snapshot \<lparr>snap_task = t, snap_dependencies = dependencies_of db (task_id t)\<rparr>)
            (tasks db)"
    unfolding t using deps by (intro map_cong) simp_all
  also have "\<dots> = forge_export db"
    by (rule forge_export_def[symmetric])
  finally have "forge_export ?db' = forge_export db" .
  with t show ?thesis by (rule conjI)
qed

theorem export_import_round_trip_witness:
  "primary_key_ok sample_index \<and> distinct (dependencies sample_index)
   \<and> tasks (forge_import (forge_export sample_index) empty_index) = tasks sample_index
   \<and> forge_export (forge_import (forge_export sample_index) empty_index) = forge_export sample_index"
proof -
  have a: "primary_key_ok sample_index"
    by (simp add: primary_key_ok_def task_ids_def sample_index_def example_task_def)
  have b: "distinct (dependencies sample_index)"
    by (simp add: sample_index_def)
  show ?thesis
    using a b export_import_round_trip[OF a b] by simp
qed

end
